theory Spec2Isabelle
  imports Main "HOL-Library.Word" "HOL-Library.List_Lexorder" "HOL-Library.Char_ord"
begin

section \<open>Data model of ncdns.go\<close>

text \<open>
  The query-resolution engine of \<^verbatim>\<open>ncdns.go\<close>: the per-request transaction \<^verbatim>\<open>Tx\<close>, the zone
  walk of \<^verbatim>\<open>addAnswersMain\<close>, the authoritative and delegation branches, the DNSKEY and NSEC3
  steps of \<^verbatim>\<open>addAnswers\<close>, and the dispatcher \<^verbatim>\<open>handle\<close>.
\<close>

subsection \<open>Constants of the DNS library\<close>

type_synonym uint8 = "8 word"
type_synonym uint16 = "16 word"
type_synonym uint32 = "32 word"

definition TypeA :: uint16 where "TypeA = 1"
definition TypeNS :: uint16 where "TypeNS = 2"
definition TypeCNAME :: uint16 where "TypeCNAME = 5"
definition TypeSOA :: uint16 where "TypeSOA = 6"
definition TypeAAAA :: uint16 where "TypeAAAA = 28"
definition TypeOPT :: uint16 where "TypeOPT = 41"
definition TypeDS :: uint16 where "TypeDS = 43"
definition TypeDNSKEY :: uint16 where "TypeDNSKEY = 48"
definition TypeNSEC3 :: uint16 where "TypeNSEC3 = 50"
definition TypeANY :: uint16 where "TypeANY = 255"

definition ClassINET :: uint16 where "ClassINET = 1"
definition ClassANY :: uint16 where "ClassANY = 255"

definition RcodeSuccess :: int where "RcodeSuccess = 0"
definition RcodeServerFailure :: int where "RcodeServerFailure = 2"
definition RcodeNameError :: int where "RcodeNameError = 3"
definition RcodeRefused :: int where "RcodeRefused = 5"

definition OpcodeQuery :: int where "OpcodeQuery = 0"

definition SHA1 :: uint8 where "SHA1 = 1"

subsection \<open>Resource records\<close>

text \<open>
  A \<^verbatim>\<open>dns.RR\<close> is an interface value: a header, whose \<^verbatim>\<open>Rrtype\<close> field the code switches
  on, and a concrete Go type, which the type assertions \<^verbatim>\<open>rr.(*dns.SOA)\<close>, \<^verbatim>\<open>rr.(*dns.NS)\<close>
  and \<^verbatim>\<open>rr.(*dns.CNAME)\<close> test. The two are separate here as they are in Go, so that a failed
  assertion is a branch of the model.
\<close>

record RR_Header =
  Name :: string
  Rrtype :: uint16
  Class :: uint16
  Ttl :: uint32

record NSEC3_fields =
  Hash :: uint8
  Flags :: uint8
  Iterations :: uint16
  SaltLength :: uint8
  Salt :: string
  HashLength :: uint8
  NextDomain :: string
  TypeBitMap :: "uint16 list"

datatype rdata =
    SOA_rd string
  | NS_rd string
  | CNAME_rd string
  | DS_rd string
  | DNSKEY_rd uint16 uint8 uint8 string
  | NSEC3_rd NSEC3_fields
  | OPT_rd string
  | Other_rd string

record RR =
  Hdr :: RR_Header
  body :: rdata

text \<open>\<^verbatim>\<open>*dns.DNSKEY\<close>: the record type of the two zone keys.\<close>

record DNSKEY =
  KeyHdr :: RR_Header
  KeyFlags :: uint16
  Protocol :: uint8
  Algorithm :: uint8
  PublicKey :: string


text \<open>
  The sections of a message hold pointers. A record obtained from the backend or built by the
  handler is never written again, so it is held by value; the two DNSKEY records of the server
  are shared objects that \<^verbatim>\<open>addAnswers\<close> writes to, so a section holds a reference to them.
\<close>

datatype rrref = Val RR | KSKref | ZSKref

subsection \<open>Errors\<close>

text \<open>The sentinel errors of package \<^verbatim>\<open>ncerr\<close>, and any other error value.\<close>

datatype error = ErrNoResults | ErrNoSuchDomain | ErrNotInZone | ErrOther string

text \<open>A Go run-time panic: a failed type assertion or a nil dereference.\<close>

datatype panic = TypeAssertionFailed | NilDereference

subsection \<open>Messages, server and transaction\<close>

record Question =
  QName :: string
  Qtype :: uint16
  Qclass :: uint16

record Msg =
  MsgId :: uint16
  Response :: bool
  Opcode :: int
  Authoritative :: bool
  RecursionDesired :: bool
  Rcode :: int
  Compress :: bool
  Questions :: "Question list"
  Answer :: "rrref list"
  Ns :: "rrref list"
  Extra :: "rrref list"

record ServerConfig =
  Bind :: string
  CfgPublicKey :: string
  CfgPrivateKey :: string
  ZonePublicKey :: string
  ZonePrivateKey :: string
  NamecoinRPCUsername :: string
  NamecoinRPCPassword :: string
  NamecoinRPCAddress :: string
  CacheMaxEntries :: int
  SelfIP :: string
  SelfName :: string

text \<open>
  \<^verbatim>\<open>Server\<close>: the two keys, their private keys (opaque key material), the configuration and
  the backend, whose \<^verbatim>\<open>Lookup\<close> answers a name with records and an error. The multiplexer and
  the two listeners belong to the transport and are left out.
\<close>

record Server =
  ksk :: DNSKEY
  kskPrivate :: string
  zsk :: DNSKEY
  zskPrivate :: string
  cfg :: ServerConfig
  backend :: "string \<Rightarrow> RR list \<times> error option"

text \<open>
  \<^verbatim>\<open>Tx\<close>. Field \<open>srv\<close> is \<^verbatim>\<open>tx.s\<close>: the server is reached through the transaction, and what
  the handler writes to it is visible here. The maps \<^verbatim>\<open>map[uint16]struct{}\<close> and
  \<^verbatim>\<open>map[string]struct{}\<close> are sets. Field \<open>lookups\<close> is not a field of the Go struct: it records,
  in call order, the names that \<^verbatim>\<open>blookup\<close> passes to the backend (and logs).
\<close>

record Tx =
  req :: Msg
  res :: Msg
  qname :: string
  qtype :: uint16
  qclass :: uint16
  srv :: Server
  rcode :: int
  typesAtQname :: "uint16 set"
  additionalQueue :: "string set"
  soa :: "RR option"
  delegationPoint :: string
  queryIsAtDelegationPoint :: bool
  consolationSOA :: bool
  suppressNSEC :: bool
  lookups :: "string list"


subsection \<open>Code of the repository and of its libraries that is not in ncdns.go\<close>

text \<open>
  \<^verbatim>\<open>ncdns.go\<close> calls helpers defined elsewhere: \<^verbatim>\<open>absname\<close>, \<^verbatim>\<open>stepName\<close>, \<^verbatim>\<open>tx.useDNSSEC\<close>,
  \<^verbatim>\<open>tx.signResponse\<close>, and the library's \<^verbatim>\<open>dns.HashName\<close> and \<^verbatim>\<open>Msg.IsEdns0\<close> (the OPT record
  of a message, if it has one). They are parameters of the model. Go leaves the iteration
  order of a map unspecified: \<open>rangeTypes\<close> and \<open>rangeNames\<close> give the order in which a
  \<^verbatim>\<open>range\<close> loop meets the keys.
\<close>

record Deps =
  absname :: "string \<Rightarrow> string"
  stepName :: "string \<Rightarrow> string"
  HashName :: "string \<Rightarrow> uint8 \<Rightarrow> uint16 \<Rightarrow> string \<Rightarrow> string"
  useDNSSEC :: "Tx \<Rightarrow> bool"
  signResponse :: "Tx \<Rightarrow> error option \<times> Tx"
  rangeTypes :: "uint16 set \<Rightarrow> uint16 list"
  rangeNames :: "string set \<Rightarrow> string list"
  IsEdns0 :: "Msg \<Rightarrow> rrref option"

text \<open>
  Modelled from the spec: \<^verbatim>\<open>tx.istype\<close>, which is not in \<^verbatim>\<open>ncdns.go\<close>. The spec (4.3.2):
  a record's type matches the question, and \<^verbatim>\<open>qtype == ANY\<close> matches all; the comment in
  \<^verbatim>\<open>addAnswersDelegation\<close> says the same (\<^verbatim>\<open>don't use istype, must not match ANY\<close>).
\<close>

definition istype :: "Tx \<Rightarrow> uint16 \<Rightarrow> bool" where
  "istype tx x \<longleftrightarrow> qtype tx = x \<or> qtype tx = TypeANY"

section \<open>String functions of the Go library\<close>

text \<open>\<^verbatim>\<open>strings.TrimRight(s, ".")\<close>: every trailing dot is removed.\<close>

definition TrimRight_dot :: "string \<Rightarrow> string" where
  "TrimRight_dot n = rev (dropWhile (\<lambda>c. c = CHR ''.'') (rev n))"

text \<open>\<^verbatim>\<open>strings.Index(n, ".")\<close>: the index of the first dot; \<open>None\<close> is the result -1.\<close>

fun Index_dot :: "string \<Rightarrow> nat option" where
  "Index_dot [] = None"
| "Index_dot (c # cs) = (if c = CHR ''.'' then Some 0 else map_option Suc (Index_dot cs))"

text \<open>
  \<^verbatim>\<open>strings.ToLower\<close> on the names the DNS library delivers, which are ASCII (it escapes
  every other byte as a backslash and three digits).
\<close>

definition lower_char :: "char \<Rightarrow> char" where
  "lower_char c =
     (if (65::nat) \<le> of_char c \<and> of_char c \<le> (90::nat) then char_of (of_char c + (32::nat)) else c)"

definition ToLower :: "string \<Rightarrow> string" where
  "ToLower n = map lower_char n"

section \<open>The resolver\<close>

subsection \<open>blookup and rrsetHasType\<close>

definition blookup :: "Tx \<Rightarrow> string \<Rightarrow> (RR list \<times> error option) \<times> Tx" where
  "blookup tx n =
     (let (rrs, err) = backend (srv tx) n;
          tx' = tx\<lparr>lookups := lookups tx @ [n]\<rparr>
      in if err = None \<and> length rrs = 0 then ((rrs, Some ErrNoResults), tx')
         else ((rrs, err), tx'))"

fun rrsetHasType :: "RR list \<Rightarrow> uint16 \<Rightarrow> RR option" where
  "rrsetHasType [] t = None"
| "rrsetHasType (rr # rrs) t = (if Rrtype (Hdr rr) = t then Some rr else rrsetHasType rrs t)"

subsection \<open>The zone walk of addAnswersMain\<close>

text \<open>The local variables of \<^verbatim>\<open>addAnswersMain\<close>, and the transaction it writes to.\<close>

record walk_state =
  w_soa :: "RR option"
  w_origq :: "RR list"
  w_origerr :: "error option"
  w_firsterr :: "error option"
  w_nss :: "RR list"
  w_firstNSAtLen :: int
  w_firstSOAAtLen :: int
  w_tx :: Tx

definition walk_init :: "Tx \<Rightarrow> walk_state" where
  "walk_init tx =
     \<lparr>w_soa = None, w_origq = [], w_origerr = None, w_firsterr = None, w_nss = [],
      w_firstNSAtLen = - 1, w_firstSOAAtLen = - 1, w_tx = tx\<rparr>"

text \<open>How the inner loop over the records ends: it runs out, or it leaves the walk (\<^verbatim>\<open>break A\<close>).\<close>

datatype 'a flow = Continue 'a | Break 'a

text \<open>\<^verbatim>\<open>case dns.TypeSOA\<close>, up to the \<^verbatim>\<open>break A\<close>.\<close>

definition on_SOA :: "string \<Rightarrow> RR \<Rightarrow> walk_state \<Rightarrow> panic + walk_state" where
  "on_SOA n rr st =
     (case (if w_soa st = None
            then (case body rr of SOA_rd x \<Rightarrow> Inr (st\<lparr>w_soa := Some rr\<rparr>)
                  | _ \<Rightarrow> Inl TypeAssertionFailed)
            else Inr st) of
        Inl p \<Rightarrow> Inl p
      | Inr st1 \<Rightarrow>
          Inr (if w_firstSOAAtLen st1 < 0 then st1\<lparr>w_firstSOAAtLen := int (length n)\<rparr> else st1))"

text \<open>\<^verbatim>\<open>case dns.TypeNS\<close>.\<close>

definition on_NS :: "Deps \<Rightarrow> string \<Rightarrow> string \<Rightarrow> RR list \<Rightarrow> walk_state \<Rightarrow> walk_state" where
  "on_NS d norig n rrs st =
     (let st1 = st\<lparr>w_nss := rrs\<rparr>
      in if w_firstNSAtLen st1 < 0
         then (let st2 = st1\<lparr>w_firstNSAtLen := int (length n)\<rparr>;
                   tx1 = (w_tx st2)\<lparr>delegationPoint := absname d n\<rparr>;
                   tx2 = (if n = norig then tx1\<lparr>queryIsAtDelegationPoint := True\<rparr> else tx1)
               in st2\<lparr>w_tx := tx2\<rparr>)
         else st1)"

text \<open>\<^verbatim>\<open>for i := range rrs\<close>: \<open>rrs\<close> is the whole record set, \<open>xs\<close> what is left of it.\<close>

fun scan_rrs :: "Deps \<Rightarrow> string \<Rightarrow> string \<Rightarrow> RR list \<Rightarrow> RR list \<Rightarrow> walk_state
    \<Rightarrow> panic + walk_state flow" where
  "scan_rrs d norig n rrs [] st = Inr (Continue st)"
| "scan_rrs d norig n rrs (rr # xs) st =
     (if Rrtype (Hdr rr) = TypeSOA then
        (case on_SOA n rr st of Inl p \<Rightarrow> Inl p | Inr st1 \<Rightarrow> Inr (Break st1))
      else if Rrtype (Hdr rr) = TypeNS then scan_rrs d norig n rrs xs (on_NS d norig n rrs st)
      else scan_rrs d norig n rrs xs st)"

text \<open>One turn of the loop \<^verbatim>\<open>for len(n) > 0\<close>, up to the search for the next dot.\<close>

definition walk_step :: "Deps \<Rightarrow> string \<Rightarrow> string \<Rightarrow> walk_state \<Rightarrow> panic + walk_state flow" where
  "walk_step d norig n st =
     (let ((rrs, err), tx1) = blookup (w_tx st) n;
          st0 = st\<lparr>w_tx := tx1\<rparr>;
          st1 = (if length n = length norig then st0\<lparr>w_origq := rrs, w_origerr := err\<rparr> else st0)
      in if err = None then scan_rrs d norig n rrs rrs st1
         else if w_firsterr st1 = None then Inr (Continue (st1\<lparr>w_firsterr := err\<rparr>))
         else Inr (Continue st1))"

function walk :: "Deps \<Rightarrow> string \<Rightarrow> string \<Rightarrow> walk_state \<Rightarrow> panic + walk_state" where
  "walk d norig n st =
     (if length n > 0 then
        (case walk_step d norig n st of
           Inl p \<Rightarrow> Inl p
         | Inr (Break st1) \<Rightarrow> Inr st1
         | Inr (Continue st1) \<Rightarrow>
             (case Index_dot n of
                None \<Rightarrow> Inr st1
              | Some nidx \<Rightarrow> walk d norig (drop (nidx + 1) n) st1))
      else Inr st)"
  by pat_completeness auto
termination
  by (relation "measure (\<lambda>(d, norig, n, st). length n)") auto

declare walk.simps [simp del]

subsection \<open>The authoritative branch\<close>

definition addAnswersCNAME :: "RR \<Rightarrow> Tx \<Rightarrow> error option \<times> Tx" where
  "addAnswersCNAME cn tx = (None, tx\<lparr>res := (res tx)\<lparr>Answer := Answer (res tx) @ [Val cn]\<rparr>\<rparr>)"

text \<open>\<^verbatim>\<open>for i := range rrs\<close> of \<^verbatim>\<open>addAnswersAuthoritative\<close>: add every record which was requested.\<close>

fun add_requested :: "RR list \<Rightarrow> Tx \<Rightarrow> Tx" where
  "add_requested [] tx = tx"
| "add_requested (rr # rrs) tx =
     (let t = Rrtype (Hdr rr);
          tx1 = (if istype tx t then tx\<lparr>res := (res tx)\<lparr>Answer := Answer (res tx) @ [Val rr]\<rparr>\<rparr>
                 else tx)
      in add_requested rrs (tx1\<lparr>typesAtQname := insert t (typesAtQname tx1)\<rparr>))"

definition addAnswersAuthoritative :: "RR list \<Rightarrow> error option \<Rightarrow> Tx \<Rightarrow> panic + error option \<times> Tx"
  where
  "addAnswersAuthoritative rrs origerr tx =
     (if origerr \<noteq> None then Inr (origerr, tx)
      else
        (let cn = rrsetHasType rrs TypeCNAME
         in if cn \<noteq> None \<and> \<not> istype tx TypeCNAME then
              (case body (the cn) of
                 CNAME_rd x \<Rightarrow> Inr (addAnswersCNAME (the cn) tx)
               | _ \<Rightarrow> Inl TypeAssertionFailed)
            else
              (let tx1 = add_requested rrs tx;
                   tx2 = (if length (Answer (res tx1)) = 0 then tx1\<lparr>consolationSOA := True\<rparr>
                          else tx1)
               in Inr (None, tx2))))"

subsection \<open>The delegation branch\<close>

definition queueAdditional :: "string \<Rightarrow> Tx \<Rightarrow> Tx" where
  "queueAdditional name tx = tx\<lparr>additionalQueue := insert name (additionalQueue tx)\<rparr>"

text \<open>The loop of the first sub-case: DS records go to the Answer section.\<close>

fun deleg_ds :: "RR list \<Rightarrow> bool \<times> Tx \<Rightarrow> bool \<times> Tx" where
  "deleg_ds [] (added, tx) = (added, tx)"
| "deleg_ds (ns # nss) (added, tx) =
     (if Rrtype (Hdr ns) = TypeDS
      then deleg_ds nss (True, tx\<lparr>res := (res tx)\<lparr>Answer := Answer (res tx) @ [Val ns]\<rparr>\<rparr>)
      else deleg_ds nss (added, tx))"

text \<open>The loop of the second sub-case: NS and DS records go to the Authority section.\<close>

fun deleg_ns :: "RR list \<Rightarrow> Tx \<Rightarrow> panic + Tx" where
  "deleg_ns [] tx = Inr tx"
| "deleg_ns (ns # nss) tx =
     (let t = Rrtype (Hdr ns);
          tx1 = (if t = TypeNS \<or> t = TypeDS
                 then tx\<lparr>res := (res tx)\<lparr>Ns := Ns (res tx) @ [Val ns]\<rparr>\<rparr> else tx)
      in case (if t = TypeNS
               then (case body ns of NS_rd target \<Rightarrow> Inr (queueAdditional target tx1)
                     | _ \<Rightarrow> Inl TypeAssertionFailed)
               else Inr tx1) of
           Inl p \<Rightarrow> Inl p
         | Inr tx2 \<Rightarrow> deleg_ns nss (if t = TypeDS then tx2\<lparr>suppressNSEC := True\<rparr> else tx2))"

definition addAnswersDelegation :: "RR list \<Rightarrow> Tx \<Rightarrow> panic + error option \<times> Tx" where
  "addAnswersDelegation nss tx =
     (case (if qtype tx = TypeDS \<and> queryIsAtDelegationPoint tx then
              (let (added, tx1) = deleg_ds nss (False, tx)
               in Inr (if added then tx1\<lparr>suppressNSEC := True\<rparr> else tx1\<lparr>consolationSOA := True\<rparr>))
            else deleg_ns nss (tx\<lparr>res := (res tx)\<lparr>Authoritative := False\<rparr>\<rparr>)) of
        Inl p \<Rightarrow> Inl p
      | Inr tx2 \<Rightarrow> Inr (None, tx2\<lparr>typesAtQname := insert TypeNS (typesAtQname tx2)\<rparr>))"

subsection \<open>addAnswersMain\<close>

definition addAnswersMain :: "Deps \<Rightarrow> Tx \<Rightarrow> panic + error option \<times> Tx" where
  "addAnswersMain d tx =
     (let norig = TrimRight_dot (qname tx)
      in case walk d norig norig (walk_init tx) of
           Inl p \<Rightarrow> Inl p
         | Inr st \<Rightarrow>
             (if w_soa st = None then Inr (Some ErrNotInZone, w_tx st)
              else
                (let tx1 = (w_tx st)\<lparr>soa := w_soa st\<rparr>
                 in if w_firstSOAAtLen st \<ge> w_firstNSAtLen st
                    then addAnswersAuthoritative (w_origq st) (w_origerr st) tx1
                    else addAnswersDelegation (w_nss st) tx1)))"

subsection \<open>DNSKEY at the apex, consolation SOA, NSEC3, additional section\<close>

text \<open>Lines 269 to 284 of \<^verbatim>\<open>addAnswers\<close>: \<^verbatim>\<open>If we are at the zone apex...\<close>\<close>

definition addDNSKEYsAtApex :: "Tx \<Rightarrow> Tx" where
  "addDNSKEYsAtApex tx =
     (if soa tx \<noteq> None \<and> TypeSOA \<in> typesAtQname tx then
        (let tx1 =
           (if istype tx TypeDNSKEY then
              (let sv = srv tx;
                   k1 = (ksk sv)\<lparr>KeyHdr := (KeyHdr (ksk sv))\<lparr>Name := Name (Hdr (the (soa tx)))\<rparr>\<rparr>;
                   z1 = (zsk sv)\<lparr>KeyHdr := (KeyHdr (zsk sv))\<lparr>Name := Name (KeyHdr k1)\<rparr>\<rparr>
               in tx\<lparr>srv := sv\<lparr>ksk := k1, zsk := z1\<rparr>,
                     res := (res tx)\<lparr>Answer := Answer (res tx) @ [KSKref, ZSKref]\<rparr>,
                     consolationSOA := False\<rparr>)
            else tx)
         in tx1\<lparr>typesAtQname := insert TypeDNSKEY (typesAtQname tx1)\<rparr>)
      else tx)"

text \<open>Lines 287 to 289 of \<^verbatim>\<open>addAnswers\<close>.\<close>

definition addConsolationSOA :: "Tx \<Rightarrow> Tx" where
  "addConsolationSOA tx =
     (if consolationSOA tx \<and> soa tx \<noteq> None
      then tx\<lparr>res := (res tx)\<lparr>Ns := Ns (res tx) @ [Val (the (soa tx))]\<rparr>\<rparr>
      else tx)"

text \<open>
  Modelled from the spec: \<^verbatim>\<open>uint16Slice\<close>, the \<^verbatim>\<open>sort.Interface\<close> over \<^verbatim>\<open>[]uint16\<close> that
  \<^verbatim>\<open>addNSEC3RRActual\<close> sorts with and that is not in \<^verbatim>\<open>ncdns.go\<close>. The spec (4.3.6): the type
  bit-map is the sorted set of the types, in ascending order of the unsigned values.
\<close>

definition uint16Slice_sort :: "uint16 list \<Rightarrow> uint16 list" where
  "uint16Slice_sort ts = sort ts"

text \<open>
  \<^verbatim>\<open>addNSEC3RRActual\<close> hashes \<^verbatim>\<open>tx.qname\<close>, not its parameter \<^verbatim>\<open>name\<close>. It reads
  \<^verbatim>\<open>tx.soa.Hdr.Name\<close>: a nil \<^verbatim>\<open>tx.soa\<close> is a nil dereference.
\<close>

definition addNSEC3RRActual :: "Deps \<Rightarrow> string \<Rightarrow> uint16 set \<Rightarrow> Tx \<Rightarrow> panic + error option \<times> Tx"
  where
  "addNSEC3RRActual d name tset tx =
     (let tbm = uint16Slice_sort (rangeTypes d tset);
          nsr1n = HashName d (qname tx) SHA1 1 ''8F'';
          nsr1nn = stepName d nsr1n
      in case soa tx of
           None \<Rightarrow> Inl NilDereference
         | Some apex \<Rightarrow>
             (let nsr1 =
                \<lparr>Hdr = \<lparr>Name = absname d (nsr1n @ ''.'' @ Name (Hdr apex)), Rrtype = TypeNSEC3,
                         Class = ClassINET, Ttl = 600\<rparr>,
                 body = NSEC3_rd
                   \<lparr>Hash = SHA1, Flags = 0, Iterations = 1, SaltLength = 1, Salt = ''8F'',
                    HashLength = of_nat (length nsr1nn), NextDomain = nsr1nn, TypeBitMap = tbm\<rparr>\<rparr>
              in Inr (None, tx\<lparr>res := (res tx)\<lparr>Ns := Ns (res tx) @ [Val nsr1]\<rparr>\<rparr>)))"

definition addNSEC3RR :: "Deps \<Rightarrow> Tx \<Rightarrow> panic + error option \<times> Tx" where
  "addNSEC3RR d tx =
     (case addNSEC3RRActual d (qname tx) (typesAtQname tx) tx of
        Inl p \<Rightarrow> Inl p
      | Inr (err, tx1) \<Rightarrow> if err \<noteq> None then Inr (err, tx1) else Inr (None, tx1))"

definition addNSEC :: "Deps \<Rightarrow> Tx \<Rightarrow> panic + error option \<times> Tx" where
  "addNSEC d tx =
     (if \<not> useDNSSEC d tx \<or> suppressNSEC tx then Inr (None, tx)
      else if length (Answer (res tx)) = 0 then
        (case addNSEC3RR d tx of
           Inl p \<Rightarrow> Inl p
         | Inr (err, tx1) \<Rightarrow> if err \<noteq> None then Inr (err, tx1) else Inr (None, tx1))
      else Inr (None, tx))"

text \<open>The loop of \<^verbatim>\<open>addAdditionalItem\<close>: A and AAAA records go to the Additional section.\<close>

fun add_glue :: "RR list \<Rightarrow> Tx \<Rightarrow> Tx" where
  "add_glue [] tx = tx"
| "add_glue (rr # rrs) tx =
     (let t = Rrtype (Hdr rr)
      in add_glue rrs
           (if t = TypeA \<or> t = TypeAAAA
            then tx\<lparr>res := (res tx)\<lparr>Extra := Extra (res tx) @ [Val rr]\<rparr>\<rparr> else tx))"

definition addAdditionalItem :: "string \<Rightarrow> Tx \<Rightarrow> error option \<times> Tx" where
  "addAdditionalItem aname tx =
     (let ((rrs, err), tx1) = blookup tx aname
      in if err \<noteq> None then (err, tx1) else (None, add_glue rrs tx1))"

text \<open>\<^verbatim>\<open>addAdditional\<close> eats the error of every item.\<close>

fun addAdditional_loop :: "string list \<Rightarrow> Tx \<Rightarrow> Tx" where
  "addAdditional_loop [] tx = tx"
| "addAdditional_loop (aname # rest) tx = addAdditional_loop rest (snd (addAdditionalItem aname tx))"

definition addAdditional :: "Deps \<Rightarrow> Tx \<Rightarrow> error option \<times> Tx" where
  "addAdditional d tx = (None, addAdditional_loop (rangeNames d (additionalQueue tx)) tx)"

subsection \<open>addAnswers\<close>

definition addAnswers :: "Deps \<Rightarrow> Tx \<Rightarrow> panic + error option \<times> Tx" where
  "addAnswers d tx =
     (case addAnswersMain d tx of
        Inl p \<Rightarrow> Inl p
      | Inr (err, tx1) \<Rightarrow>
          if err \<noteq> None then Inr (err, tx1)
          else
            (let tx2 = addDNSKEYsAtApex tx1;
                 tx3 = addConsolationSOA tx2
             in case addNSEC d tx3 of
                  Inl p \<Rightarrow> Inl p
                | Inr (err1, tx4) \<Rightarrow>
                    if err1 \<noteq> None then Inr (err1, tx4)
                    else
                      (let (err2, tx5) = addAdditional d tx4
                       in if err2 \<noteq> None then Inr (err2, tx5)
                          else
                            (let (err3, tx6) = signResponse d tx5
                             in if err3 \<noteq> None then Inr (err3, tx6) else Inr (None, tx6)))))"

section \<open>The dispatcher\<close>

text \<open>\<^verbatim>\<open>SetReply\<close> and \<^verbatim>\<open>SetRcode\<close> of the DNS library, on the fields of the model.\<close>

definition emptyMsg :: Msg where
  "emptyMsg =
     \<lparr>MsgId = 0, Response = False, Opcode = 0, Authoritative = False, RecursionDesired = False,
      Rcode = 0, Compress = False, Questions = [], Answer = [], Ns = [], Extra = []\<rparr>"

definition SetReply :: "Msg \<Rightarrow> Msg \<Rightarrow> Msg" where
  "SetReply m request =
     m\<lparr>MsgId := MsgId request, RecursionDesired := RecursionDesired request, Response := True,
       Opcode := OpcodeQuery, Rcode := RcodeSuccess,
       Questions := (if length (Questions request) > 0 then [hd (Questions request)]
                     else Questions m)\<rparr>"

definition SetRcode :: "Msg \<Rightarrow> Msg \<Rightarrow> int \<Rightarrow> Msg" where
  "SetRcode m request rc = (SetReply m request)\<lparr>Rcode := rc\<rparr>"

text \<open>The error branch of the loop over the questions: the rcode for an error.\<close>

definition rcode_of_error :: "error \<Rightarrow> Tx \<Rightarrow> Tx" where
  "rcode_of_error err tx =
     (if err = ErrNoResults then tx\<lparr>rcode := 0\<rparr>
      else if err = ErrNoSuchDomain then tx\<lparr>rcode := RcodeNameError\<rparr>
      else if rcode tx = 0 then tx\<lparr>rcode := RcodeServerFailure\<rparr>
      else tx)"

text \<open>\<^verbatim>\<open>for _, q := range tx.req.Question\<close>.\<close>

fun handle_questions :: "Deps \<Rightarrow> Question list \<Rightarrow> Tx \<Rightarrow> panic + Tx" where
  "handle_questions d [] tx = Inr tx"
| "handle_questions d (q # qs) tx =
     (let tx1 = tx\<lparr>qname := ToLower (QName q), qtype := Qtype q, qclass := Qclass q\<rparr>
      in if Qclass q \<noteq> ClassINET \<and> Qclass q \<noteq> ClassANY then handle_questions d qs tx1
         else
           (case addAnswers d tx1 of
              Inl p \<Rightarrow> Inl p
            | Inr (err, tx2) \<Rightarrow>
                (case err of
                   Some e \<Rightarrow> Inr (rcode_of_error e tx2)
                 | None \<Rightarrow> handle_questions d qs tx2)))"

definition newTx :: "Server \<Rightarrow> Msg \<Rightarrow> Tx" where
  "newTx sv reqMsg =
     \<lparr>req = reqMsg,
      res = (SetReply emptyMsg reqMsg)\<lparr>Authoritative := True, Compress := True\<rparr>,
      qname = [], qtype = 0, qclass = 0, srv = sv, rcode = 0, typesAtQname = {},
      additionalQueue = {}, soa = None, delegationPoint = [], queryIsAtDelegationPoint = False,
      consolationSOA = False, suppressNSEC = False, lookups = []\<rparr>"

text \<open>
  \<^verbatim>\<open>handle\<close>. The result is the transaction when the response is written: \<open>res\<close> is the message
  passed to \<^verbatim>\<open>WriteMsg\<close>, \<open>srv\<close> the server as the handler leaves it.
\<close>

definition handle :: "Deps \<Rightarrow> Server \<Rightarrow> Msg \<Rightarrow> panic + Tx" where
  "handle d sv reqMsg =
     (let tx0 = newTx sv reqMsg;
          tx1 = (case IsEdns0 d (req tx0) of
                   Some opt \<Rightarrow> tx0\<lparr>res := (res tx0)\<lparr>Extra := Extra (res tx0) @ [opt]\<rparr>\<rparr>
                 | None \<Rightarrow> tx0)
      in case handle_questions d (Questions (req tx1)) tx1 of
           Inl p \<Rightarrow> Inl p
         | Inr tx2 \<Rightarrow> Inr (tx2\<lparr>res := SetRcode (res tx2) (req tx2) (rcode tx2)\<rparr>))"


section \<open>A zone to run the code on\<close>

text \<open>
  The zone of the spec's scenarios: apex \<^verbatim>\<open>example.\<close> with SOA and NS, addresses at
  \<^verbatim>\<open>ns1.example.\<close> and \<^verbatim>\<open>host.example.\<close>, a delegation with DS at \<^verbatim>\<open>sub.example.\<close>; and below
  it a second delegation at \<^verbatim>\<open>a.sub.example.\<close> and an alias at \<^verbatim>\<open>alias.example.\<close>. Every other
  name is answered with \<^verbatim>\<open>ErrNoSuchDomain\<close>.
\<close>

definition mkrr :: "string \<Rightarrow> uint16 \<Rightarrow> rdata \<Rightarrow> RR" where
  "mkrr n t rd = \<lparr>Hdr = \<lparr>Name = n, Rrtype = t, Class = ClassINET, Ttl = 600\<rparr>, body = rd\<rparr>"

definition ex_backend :: "string \<Rightarrow> RR list \<times> error option" where
  "ex_backend n =
     (if n = ''example'' then
        ([mkrr ''example.'' TypeSOA (SOA_rd ''ns1.example. hostmaster.example.''),
          mkrr ''example.'' TypeNS (NS_rd ''ns1.example.'')], None)
      else if n = ''ns1.example'' then ([mkrr ''ns1.example.'' TypeA (Other_rd ''10.0.0.1'')], None)
      else if n = ''host.example'' then ([mkrr ''host.example.'' TypeA (Other_rd ''10.0.0.2'')], None)
      else if n = ''alias.example'' then
        ([mkrr ''alias.example.'' TypeCNAME (CNAME_rd ''host.example.'')], None)
      else if n = ''sub.example'' then
        ([mkrr ''sub.example.'' TypeNS (NS_rd ''ns1.sub.example.''),
          mkrr ''sub.example.'' TypeDS (DS_rd ''2371 8 2 ab'')], None)
      else if n = ''a.sub.example'' then
        ([mkrr ''a.sub.example.'' TypeNS (NS_rd ''ns.a.sub.example.'')], None)
      else ([], Some ErrNoSuchDomain))"

definition ex_key :: "uint16 \<Rightarrow> DNSKEY" where
  "ex_key fl =
     \<lparr>KeyHdr = \<lparr>Name = [], Rrtype = TypeDNSKEY, Class = ClassINET, Ttl = 3600\<rparr>,
      KeyFlags = fl, Protocol = 3, Algorithm = 8, PublicKey = ''AwEAAc''\<rparr>"

definition ex_cfg :: ServerConfig where
  "ex_cfg =
     \<lparr>Bind = '':53'', CfgPublicKey = ''ncdns.key'', CfgPrivateKey = ''ncdns.private'',
      ZonePublicKey = [], ZonePrivateKey = [], NamecoinRPCUsername = [],
      NamecoinRPCPassword = [], NamecoinRPCAddress = ''localhost:8336'', CacheMaxEntries = 1000,
      SelfIP = ''127.127.127.127'', SelfName = []\<rparr>"

definition ex_server :: Server where
  "ex_server =
     \<lparr>ksk = ex_key 257, kskPrivate = ''ksk-private'', zsk = ex_key 256,
      zskPrivate = ''zsk-private'', cfg = ex_cfg, backend = ex_backend\<rparr>"

text \<open>
  One choice of the helpers: \<open>absname\<close> appends the dot that is missing, the hash and its step
  are stand-ins, DNSSEC is in use, signing adds nothing, a map is met in ascending order, and
  the OPT record of a message is the last one of its additional section.
\<close>

definition ex_deps :: Deps where
  "ex_deps =
     \<lparr>absname = (\<lambda>n. if n = [] then ''.'' else if last n = CHR ''.'' then n else n @ ''.''),
      stepName = (\<lambda>n. n @ ''0''),
      HashName = (\<lambda>n h i s. ''h-'' @ n),
      useDNSSEC = (\<lambda>tx. True),
      signResponse = (\<lambda>tx. (None, tx)),
      rangeTypes = sorted_list_of_set,
      rangeNames = sorted_list_of_set,
      IsEdns0 = (\<lambda>m. List.find (\<lambda>r. case r of Val rr \<Rightarrow> Rrtype (Hdr rr) = TypeOPT | _ \<Rightarrow> False)
                        (rev (Extra m)))\<rparr>"

definition ex_query :: "string \<Rightarrow> uint16 \<Rightarrow> Msg" where
  "ex_query n t =
     emptyMsg\<lparr>MsgId := 7, Questions := [\<lparr>QName = n, Qtype = t, Qclass = ClassINET\<rparr>]\<rparr>"

text \<open>The transaction as \<^verbatim>\<open>handle\<close> passes it to \<^verbatim>\<open>addAnswers\<close> for the one question.\<close>

definition ex_tx :: "string \<Rightarrow> uint16 \<Rightarrow> Tx" where
  "ex_tx n t =
     (newTx ex_server (ex_query n t))\<lparr>qname := ToLower n, qtype := t, qclass := ClassINET\<rparr>"



definition is_CNAME :: "RR \<Rightarrow> bool" where
  "is_CNAME rr = (case body rr of CNAME_rd target \<Rightarrow> True | _ \<Rightarrow> False)"




text \<open>A record set with an alias and an address at the same name.\<close>

definition ex_alias_rrs :: "RR list" where
  "ex_alias_rrs =
     [mkrr ''alias.example.'' TypeCNAME (CNAME_rd ''host.example.''),
      mkrr ''alias.example.'' TypeA (Other_rd ''10.0.0.3'')]"

text \<open>
  Notions for the zone walk. A name bears a type when the backend answers it without error
  with a record of that type. \<open>names\<close> lists the names the loop \<^verbatim>\<open>for len(n) > 0\<close> goes
  through when it is not left early: the name, then what follows its first dot, and so on.
  \<open>walk_list\<close> is the same loop over such a list, and \<open>upto_first\<close> the part of a list up to
  and including the first element with a property.
\<close>

definition bears :: "Server \<Rightarrow> uint16 \<Rightarrow> string \<Rightarrow> bool" where
  "bears sv t n = (case backend sv n of (rrs, err) \<Rightarrow> err = None \<and> rrsetHasType rrs t \<noteq> None)"

definition notSOA :: "RR \<Rightarrow> bool" where
  "notSOA rr \<longleftrightarrow> Rrtype (Hdr rr) \<noteq> TypeSOA"

function names :: "string \<Rightarrow> string list" where
  "names n =
     (if length n > 0 then
        n # (case Index_dot n of None \<Rightarrow> [] | Some nidx \<Rightarrow> names (drop (nidx + 1) n))
      else [])"
  by pat_completeness auto
termination
  by (relation "measure length") auto

declare names.simps [simp del]

fun walk_list :: "Deps \<Rightarrow> string \<Rightarrow> string list \<Rightarrow> walk_state \<Rightarrow> panic + walk_state" where
  "walk_list d norig [] st = Inr st"
| "walk_list d norig (m # ms) st =
     (case walk_step d norig m st of
        Inl p \<Rightarrow> Inl p
      | Inr (Break st1) \<Rightarrow> Inr st1
      | Inr (Continue st1) \<Rightarrow> walk_list d norig ms st1)"

fun upto_first :: "('a \<Rightarrow> bool) \<Rightarrow> 'a list \<Rightarrow> 'a list" where
  "upto_first P [] = []"
| "upto_first P (x # xs) = (if P x then [x] else x # upto_first P xs)"

text \<open>The walk of \<^verbatim>\<open>foo.sub.example.\<close>, for the examples.\<close>

definition ex_walk :: walk_state where
  "ex_walk =
     projr (walk ex_deps (TrimRight_dot (qname (ex_tx ''foo.sub.example.'' TypeA)))
       (TrimRight_dot (qname (ex_tx ''foo.sub.example.'' TypeA)))
       (walk_init (ex_tx ''foo.sub.example.'' TypeA)))"

section \<open>Facts about the model\<close>

lemmas dns_consts =
  TypeA_def TypeNS_def TypeCNAME_def TypeSOA_def TypeAAAA_def TypeOPT_def TypeDS_def
  TypeDNSKEY_def TypeNSEC3_def TypeANY_def ClassINET_def ClassANY_def RcodeSuccess_def
  RcodeServerFailure_def RcodeNameError_def RcodeRefused_def OpcodeQuery_def SHA1_def

subsection \<open>The dispatcher's rcode\<close>

text \<open>
  C3. The dispatcher maps \<^verbatim>\<open>ErrNoResults\<close> to NOERROR and \<^verbatim>\<open>ErrNoSuchDomain\<close> to NXDOMAIN, and
  the claim has \<^verbatim>\<open>ErrNotInZone\<close> mapped to REFUSED, as the comment in
  \<^verbatim>\<open>addAnswersAuthoritative\<close> says (\<^verbatim>\<open>fail with REFUSED\<close>). The code has no branch for
  \<^verbatim>\<open>ErrNotInZone\<close>: for \<^verbatim>\<open>example.org. A\<close>, a name outside the zone, the resolver returns
  \<^verbatim>\<open>ErrNotInZone\<close> after looking up \<^verbatim>\<open>example.org\<close> and \<^verbatim>\<open>org\<close>, and the response carries
  SERVFAIL (2), not REFUSED (5).
\<close>

theorem handle_NotInZone_SERVFAIL:
  "map_sum id fst (addAnswers ex_deps (ex_tx ''example.org.'' TypeA)) = Inr (Some ErrNotInZone) \<and>
   map_sum id (\<lambda>tx. (Rcode (res tx), lookups tx))
     (handle ex_deps ex_server (ex_query ''example.org.'' TypeA))
     = Inr (RcodeServerFailure, [''example.org'', ''org'']) \<and>
   RcodeServerFailure \<noteq> RcodeRefused"
  by code_simp

subsection \<open>A name that does not exist below the apex\<close>

text \<open>
  C6. For \<^verbatim>\<open>nothere.example. A\<close> the backend answers \<^verbatim>\<open>ErrNoSuchDomain\<close> at the queried name and
  the walk finds the apex SOA at \<^verbatim>\<open>example\<close>. The claim has the response carry NXDOMAIN with
  the apex SOA and an NSEC3 record in the Authority section; the comment in \<^verbatim>\<open>addNSEC\<close> lists
  the name error response among those that get an NSEC record. In the code \<^verbatim>\<open>addAnswers\<close>
  returns as soon as \<^verbatim>\<open>addAnswersMain\<close> returns the error, before the consolation SOA and
  \<^verbatim>\<open>addNSEC\<close>: the rcode is NXDOMAIN (3), and the Answer and Authority sections are empty.
\<close>

theorem handle_NoSuchDomain_empty_authority:
  "map_sum id (\<lambda>tx. (Rcode (res tx), Answer (res tx), Ns (res tx), soa tx \<noteq> None, lookups tx))
     (handle ex_deps ex_server (ex_query ''nothere.example.'' TypeA))
     = Inr (RcodeNameError, [], [], True, [''nothere.example'', ''example''])"
  by code_simp

subsection \<open>The root name\<close>

text \<open>
  C10. For a query whose qname is the root name \<^verbatim>\<open>.\<close> (or the empty string), stripping the
  trailing dot leaves the empty string; the walk returns its initial state, so it makes no
  backend lookup (\<open>lookups\<close> is unchanged), and the resolver returns \<^verbatim>\<open>ErrNotInZone\<close> with the
  transaction, and so every section of the response, as it was.
\<close>

theorem root_query_NotInZone:
  "qname tx = ''.'' \<or> qname tx = [] \<Longrightarrow>
     TrimRight_dot (qname tx) = [] \<and>
     walk d [] [] (walk_init tx) = Inr (walk_init tx) \<and>
     addAnswersMain d tx = Inr (Some ErrNotInZone, tx) \<and>
     addAnswers d tx = Inr (Some ErrNotInZone, tx)"
  by (auto simp: TrimRight_dot_def addAnswersMain_def addAnswers_def walk_init_def walk.simps)

theorem root_query_NotInZone_witness:
  "qname (ex_tx ''.'' TypeA) = ''.'' \<and>
   addAnswers ex_deps (ex_tx ''.'' TypeA) = Inr (Some ErrNotInZone, ex_tx ''.'' TypeA) \<and>
   lookups (ex_tx ''.'' TypeA) = []"
  using root_query_NotInZone [of "ex_tx ''.'' TypeA" ex_deps]
  by (simp add: ex_tx_def ToLower_def lower_char_def newTx_def)

subsection \<open>DNSKEY at the apex\<close>



subsection \<open>NSEC3\<close>




subsection \<open>The delegation branch\<close>





subsection \<open>The records handed to the delegation branch\<close>

text \<open>
  C5. The claim: the first (longest) name on the walk that bears NS records fixes both
  \<open>delegationPoint\<close> and the record set \<open>nss\<close> passed to the delegation branch. The code guards
  \<^verbatim>\<open>firstNSAtLen\<close> and \<^verbatim>\<open>tx.delegationPoint\<close> with \<^verbatim>\<open>if firstNSAtLen < 0\<close>, but assigns
  \<^verbatim>\<open>nss = rrs\<close> before the guard, at every NS record it meets. For \<^verbatim>\<open>x.a.sub.example. A\<close>,
  below the delegation at \<^verbatim>\<open>a.sub.example.\<close> which lies below the delegation at
  \<^verbatim>\<open>sub.example.\<close>, the delegation point is \<^verbatim>\<open>a.sub.example.\<close> and the Authority section holds
  the NS and DS records of \<^verbatim>\<open>sub.example.\<close>, not the NS record found at the delegation point.
\<close>

theorem delegation_records_of_another_name:
  "map_sum id (\<lambda>(err, tx'). (err, delegationPoint tx', Authoritative (res tx'), Ns (res tx')))
     (addAnswersMain ex_deps (ex_tx ''x.a.sub.example.'' TypeA))
   = Inr (None, ''a.sub.example.'', False,
       [Val (mkrr ''sub.example.'' TypeNS (NS_rd ''ns1.sub.example.'')),
        Val (mkrr ''sub.example.'' TypeDS (DS_rd ''2371 8 2 ab''))]) \<and>
   fst (ex_backend ''a.sub.example'') = [mkrr ''a.sub.example.'' TypeNS (NS_rd ''ns.a.sub.example.'')]"
  by code_simp

subsection \<open>An alias at the queried name\<close>

lemma rrsetHasType_hd:
  "rrsetHasType rrs t = (if \<exists>rr\<in>set rrs. Rrtype (Hdr rr) = t
      then Some (hd (filter (\<lambda>rr. Rrtype (Hdr rr) = t) rrs)) else None)"
  by (induction rrs) auto

text \<open>
  C8 as stated fails: the test is \<^verbatim>\<open>!tx.istype(dns.TypeCNAME)\<close>, and \<^verbatim>\<open>istype\<close> matches a
  query of type ANY as well. For an ANY query at a name with a CNAME and an address, the
  branch does not stop at the CNAME: it appends both records to Answer and records both types.
\<close>

theorem ANY_query_bypasses_CNAME:
  "rrsetHasType ex_alias_rrs TypeCNAME = Some (mkrr ''alias.example.'' TypeCNAME (CNAME_rd ''host.example.'')) \<and>
   qtype (ex_tx ''alias.example.'' TypeANY) \<noteq> TypeCNAME \<and>
   map_sum id (\<lambda>(err, tx'). (err, Answer (res tx'), typesAtQname tx'))
     (addAnswersAuthoritative ex_alias_rrs None (ex_tx ''alias.example.'' TypeANY))
   = Inr (None,
       [Val (mkrr ''alias.example.'' TypeCNAME (CNAME_rd ''host.example.'')),
        Val (mkrr ''alias.example.'' TypeA (Other_rd ''10.0.0.3''))],
       {TypeCNAME, TypeA})"
  by code_simp

text \<open>
  C8, amended. In the authoritative branch, when the lookup at the queried name succeeded,
  the record set has a record of type CNAME (the first of them a CNAME record) and the
  query type is neither CNAME nor ANY, that first CNAME record alone is appended to Answer, and
  the branch returns with nothing else of the transaction changed: no other record, no type.
\<close>

theorem addAnswersAuthoritative_CNAME:
  assumes "\<exists>rr\<in>set rrs. Rrtype (Hdr rr) = TypeCNAME"
    and "is_CNAME (hd (filter (\<lambda>rr. Rrtype (Hdr rr) = TypeCNAME) rrs))"
    and "qtype tx \<noteq> TypeCNAME" and "qtype tx \<noteq> TypeANY"
  shows "addAnswersAuthoritative rrs None tx =
     Inr (None, tx\<lparr>res := (res tx)\<lparr>Answer := Answer (res tx) @
       [Val (hd (filter (\<lambda>rr. Rrtype (Hdr rr) = TypeCNAME) rrs))]\<rparr>\<rparr>)"
  using assms
  by (auto simp add: addAnswersAuthoritative_def rrsetHasType_hd istype_def addAnswersCNAME_def
      is_CNAME_def Let_def split: rdata.splits)

theorem addAnswersAuthoritative_CNAME_witness:
  "map_sum id (\<lambda>(err, tx'). (err, Answer (res tx'), typesAtQname tx'))
     (addAnswersAuthoritative ex_alias_rrs None (ex_tx ''alias.example.'' TypeA))
   = Inr (None, [Val (mkrr ''alias.example.'' TypeCNAME (CNAME_rd ''host.example.''))], {})"
proof -
  have h1: "\<exists>rr\<in>set ex_alias_rrs. Rrtype (Hdr rr) = TypeCNAME"
    by (simp add: ex_alias_rrs_def mkrr_def)
  have f: "hd (filter (\<lambda>rr. Rrtype (Hdr rr) = TypeCNAME) ex_alias_rrs)
      = mkrr ''alias.example.'' TypeCNAME (CNAME_rd ''host.example.'')"
    by (simp add: ex_alias_rrs_def mkrr_def dns_consts)
  have h2: "is_CNAME (hd (filter (\<lambda>rr. Rrtype (Hdr rr) = TypeCNAME) ex_alias_rrs))"
    unfolding f by (simp add: is_CNAME_def mkrr_def)
  have h3: "qtype (ex_tx ''alias.example.'' TypeA) \<noteq> TypeCNAME"
    by (simp add: ex_tx_def dns_consts)
  have h4: "qtype (ex_tx ''alias.example.'' TypeA) \<noteq> TypeANY"
    by (simp add: ex_tx_def dns_consts)
  show ?thesis
    unfolding addAnswersAuthoritative_CNAME [OF h1 h2 h3 h4] f
    by (simp add: ex_tx_def newTx_def SetReply_def emptyMsg_def)
qed

subsection \<open>The zone walk and the choice of the branch\<close>

lemma walk_eq_walk_list: "walk d norig n st = walk_list d norig (names n) st"
proof (induction d norig n st rule: walk.induct)
  case (1 d norig n st)
  show ?case
  proof (cases "length n > 0")
    case False
    then show ?thesis by (subst walk.simps, subst names.simps) simp
  next
    case True
    show ?thesis
    proof (cases "walk_step d norig n st")
      case (Inl p)
      with True show ?thesis
        by (subst walk.simps, subst names.simps) simp
    next
      case (Inr fl)
      show ?thesis
      proof (cases fl)
        case (Break st1)
        with True Inr show ?thesis
          by (subst walk.simps, subst names.simps) simp
      next
        case (Continue st1)
        show ?thesis
        proof (cases "Index_dot n")
          case None
          with True Inr Continue show ?thesis
            by (subst walk.simps, subst names.simps) simp
        next
          case (Some nidx)
          with True Inr Continue "1.IH" [OF True Inr Continue Some] show ?thesis
            by (subst walk.simps, subst names.simps) simp
        qed
      qed
    qed
  qed
qed

lemma on_NS_idem:
  "on_NS d norig n rrs (on_NS d norig n rrs st) = on_NS d norig n rrs st"
  by (simp add: on_NS_def Let_def)

lemma scan_rrs_eq:
  "scan_rrs d norig n rrs xs st =
     (let st1 = (if rrsetHasType (takeWhile notSOA xs) TypeNS \<noteq> None
                 then on_NS d norig n rrs st else st)
      in case rrsetHasType xs TypeSOA of
           None \<Rightarrow> Inr (Continue st1)
         | Some rr \<Rightarrow> (case on_SOA n rr st1 of Inl p \<Rightarrow> Inl p | Inr st2 \<Rightarrow> Inr (Break st2)))"
proof (induction xs arbitrary: st)
  case Nil
  then show ?case by simp
next
  case (Cons rr xs)
  show ?case
  proof (cases "Rrtype (Hdr rr) = TypeSOA")
    case True
    then show ?thesis by (simp add: notSOA_def)
  next
    case False
    show ?thesis
    proof (cases "Rrtype (Hdr rr) = TypeNS")
      case True
      with False show ?thesis
        by (simp add: Cons.IH notSOA_def on_NS_idem Let_def split: option.split)
    next
      case F2: False
      with False show ?thesis
        by (simp add: Cons.IH notSOA_def Let_def)
    qed
  qed
qed

lemma takeWhile_notSOA_all:
  "rrsetHasType xs TypeSOA = None \<Longrightarrow> takeWhile notSOA xs = xs"
  by (induction xs) (auto simp: notSOA_def split: if_splits)

lemma rrsetHasType_takeWhile:
  "rrsetHasType (takeWhile P xs) t = Some y \<Longrightarrow> rrsetHasType xs t \<noteq> None"
  by (induction xs) (auto split: if_splits)

lemma walk_step_Continue:
  assumes "walk_step d norig m st = Inr (Continue st1)"
  shows "\<not> bears (srv (w_tx st)) TypeSOA m"
    and "w_soa st1 = w_soa st"
    and "w_firstSOAAtLen st1 = w_firstSOAAtLen st"
    and "w_firstNSAtLen st1 =
          (if w_firstNSAtLen st < 0 \<and> bears (srv (w_tx st)) TypeNS m then int (length m)
           else w_firstNSAtLen st)"
    and "lookups (w_tx st1) = lookups (w_tx st) @ [m]"
    and "srv (w_tx st1) = srv (w_tx st)"
    and "(w_origq st1, w_origerr st1) =
          (if length m = length norig then fst (blookup (w_tx st) m)
           else (w_origq st, w_origerr st))"
  using assms
  by (auto simp add: walk_step_def blookup_def scan_rrs_eq bears_def on_NS_def on_SOA_def Let_def
      takeWhile_notSOA_all
      split: prod.splits option.splits if_splits sum.splits rdata.splits)

lemma walk_step_Break:
  assumes "walk_step d norig m st = Inr (Break st1)"
    and "w_soa st = None" and "w_firstSOAAtLen st < 0"
  shows "bears (srv (w_tx st)) TypeSOA m"
    and "w_soa st1 \<noteq> None"
    and "w_firstSOAAtLen st1 = int (length m)"
    and "w_firstNSAtLen st1 = w_firstNSAtLen st \<or>
          (w_firstNSAtLen st < 0 \<and> w_firstNSAtLen st1 = int (length m))"
    and "\<not> bears (srv (w_tx st)) TypeNS m \<longrightarrow> w_firstNSAtLen st1 = w_firstNSAtLen st"
    and "lookups (w_tx st1) = lookups (w_tx st) @ [m]"
    and "srv (w_tx st1) = srv (w_tx st)"
    and "(w_origq st1, w_origerr st1) =
          (if length m = length norig then fst (blookup (w_tx st) m)
           else (w_origq st, w_origerr st))"
  using assms
  by (auto simp add: walk_step_def blookup_def scan_rrs_eq bears_def on_NS_def on_SOA_def Let_def
      dest: rrsetHasType_takeWhile
      split: prod.splits option.splits if_splits sum.splits rdata.splits)

lemma upto_first_subset: "set (upto_first P xs) \<subseteq> set xs"
  by (induction xs) auto

lemma upto_first_Nil [simp]: "upto_first P xs = [] \<longleftrightarrow> xs = []"
  by (cases xs) auto

lemma walk_list_trace:
  "walk_list d norig ms st = Inr st' \<Longrightarrow> w_soa st = None \<Longrightarrow> w_firstSOAAtLen st < 0 \<Longrightarrow>
   lookups (w_tx st') = lookups (w_tx st) @ upto_first (bears (srv (w_tx st)) TypeSOA) ms \<and>
   srv (w_tx st') = srv (w_tx st)"
proof (induction ms arbitrary: st)
  case Nil
  then show ?case by simp
next
  case (Cons m ms)
  from Cons.prems(1) obtain fl where s: "walk_step d norig m st = Inr fl"
    by (auto split: sum.splits)
  show ?case
  proof (cases fl)
    case (Break st1)
    with s Cons.prems have "st' = st1" by simp
    with walk_step_Break [OF s [unfolded Break] Cons.prems(2,3)] show ?thesis by simp
  next
    case (Continue st1)
    note c = walk_step_Continue [OF s [unfolded Continue]]
    from s Continue Cons.prems(1) have r: "walk_list d norig ms st1 = Inr st'" by simp
    from Cons.IH [OF r] c Cons.prems show ?thesis by simp
  qed
qed

lemma walk_list_soa:
  "walk_list d norig ms st = Inr st' \<Longrightarrow> w_soa st = None \<Longrightarrow> w_firstSOAAtLen st < 0 \<Longrightarrow>
   (w_soa st' \<noteq> None \<longleftrightarrow> (\<exists>m\<in>set ms. bears (srv (w_tx st)) TypeSOA m)) \<and>
   (w_soa st' \<noteq> None \<longrightarrow>
      bears (srv (w_tx st)) TypeSOA (last (upto_first (bears (srv (w_tx st)) TypeSOA) ms)) \<and>
      w_firstSOAAtLen st' = int (length (last (upto_first (bears (srv (w_tx st)) TypeSOA) ms))))"
proof (induction ms arbitrary: st)
  case Nil
  then show ?case by simp
next
  case (Cons m ms)
  from Cons.prems(1) obtain fl where s: "walk_step d norig m st = Inr fl"
    by (auto split: sum.splits)
  show ?case
  proof (cases fl)
    case (Break st1)
    with s Cons.prems have "st' = st1" by simp
    with walk_step_Break [OF s [unfolded Break] Cons.prems(2,3)] show ?thesis by simp
  next
    case (Continue st1)
    note c = walk_step_Continue [OF s [unfolded Continue]]
    from s Continue Cons.prems(1) have r: "walk_list d norig ms st1 = Inr st'" by simp
    have cl: "w_soa st1 = None" "w_firstSOAAtLen st1 < 0"
      using c Cons.prems by simp_all
    from Cons.IH [OF r cl] c show ?thesis by auto
  qed
qed

lemma walk_list_ns_sticky:
  "walk_list d norig ms st = Inr st' \<Longrightarrow> w_soa st = None \<Longrightarrow> w_firstSOAAtLen st < 0 \<Longrightarrow>
   0 \<le> w_firstNSAtLen st \<Longrightarrow> w_firstNSAtLen st' = w_firstNSAtLen st"
proof (induction ms arbitrary: st)
  case Nil
  then show ?case by simp
next
  case (Cons m ms)
  from Cons.prems(1) obtain fl where s: "walk_step d norig m st = Inr fl"
    by (auto split: sum.splits)
  show ?case
  proof (cases fl)
    case (Break st1)
    with s Cons.prems have "st' = st1" by simp
    with walk_step_Break [OF s [unfolded Break] Cons.prems(2,3)] Cons.prems(4) show ?thesis by auto
  next
    case (Continue st1)
    note c = walk_step_Continue [OF s [unfolded Continue]]
    from s Continue Cons.prems(1) have r: "walk_list d norig ms st1 = Inr st'" by simp
    have cl: "w_soa st1 = None" "w_firstSOAAtLen st1 < 0" "0 \<le> w_firstNSAtLen st1"
      using c Cons.prems by simp_all
    from Cons.IH [OF r cl] c Cons.prems(4) show ?thesis by simp
  qed
qed

lemma walk_list_ns_none:
  "walk_list d norig ms st = Inr st' \<Longrightarrow> w_soa st = None \<Longrightarrow> w_firstSOAAtLen st < 0 \<Longrightarrow>
   \<forall>m\<in>set (upto_first (bears (srv (w_tx st)) TypeSOA) ms). \<not> bears (srv (w_tx st)) TypeNS m \<Longrightarrow>
   w_firstNSAtLen st' = w_firstNSAtLen st"
proof (induction ms arbitrary: st)
  case Nil
  then show ?case by simp
next
  case (Cons m ms)
  from Cons.prems(1) obtain fl where s: "walk_step d norig m st = Inr fl"
    by (auto split: sum.splits)
  show ?case
  proof (cases fl)
    case (Break st1)
    with s Cons.prems have "st' = st1" by simp
    with walk_step_Break [OF s [unfolded Break] Cons.prems(2,3)] Cons.prems(4) show ?thesis by auto
  next
    case (Continue st1)
    note c = walk_step_Continue [OF s [unfolded Continue]]
    from s Continue Cons.prems(1) have r: "walk_list d norig ms st1 = Inr st'" by simp
    have cl: "w_soa st1 = None" "w_firstSOAAtLen st1 < 0"
      using c Cons.prems by simp_all
    have nb: "\<forall>m\<in>set (upto_first (bears (srv (w_tx st1)) TypeSOA) ms). \<not> bears (srv (w_tx st1)) TypeNS m"
      using Cons.prems(4) c by simp
    from Cons.IH [OF r cl nb] c Cons.prems(4) show ?thesis by simp
  qed
qed

lemma walk_list_branch:
  "walk_list d norig ms st = Inr st' \<Longrightarrow> w_soa st = None \<Longrightarrow> w_firstSOAAtLen st < 0 \<Longrightarrow>
   w_firstNSAtLen st < 0 \<Longrightarrow> sorted_wrt (\<lambda>a b. length b < length a) ms \<Longrightarrow> w_soa st' \<noteq> None \<Longrightarrow>
   (w_firstNSAtLen st' \<le> w_firstSOAAtLen st' \<longleftrightarrow>
      (\<forall>m\<in>set (butlast (upto_first (bears (srv (w_tx st)) TypeSOA) ms)).
          \<not> bears (srv (w_tx st)) TypeNS m))"
proof (induction ms arbitrary: st)
  case Nil
  then show ?case by simp
next
  case (Cons m ms)
  let ?sv = "srv (w_tx st)"
  from Cons.prems(1) obtain fl where s: "walk_step d norig m st = Inr fl"
    by (auto split: sum.splits)
  show ?case
  proof (cases fl)
    case (Break st1)
    with s Cons.prems have "st' = st1" by simp
    with walk_step_Break [OF s [unfolded Break] Cons.prems(2,3)] Cons.prems(4) show ?thesis
      by auto
  next
    case (Continue st1)
    note c = walk_step_Continue [OF s [unfolded Continue]]
    from s Continue Cons.prems(1) have r: "walk_list d norig ms st1 = Inr st'" by simp
    have cl: "w_soa st1 = None" "w_firstSOAAtLen st1 < 0"
      using c Cons.prems by simp_all
    have sv1: "srv (w_tx st1) = ?sv" using c by simp
    let ?vis = "upto_first (bears ?sv TypeSOA) ms"
    note so = walk_list_soa [OF r cl, unfolded sv1]
    from so Cons.prems(6) have ex: "\<exists>m\<in>set ms. bears ?sv TypeSOA m" by simp
    then have ne: "?vis \<noteq> []" by auto
    have lastin: "last ?vis \<in> set ms"
      using ne upto_first_subset [of "bears ?sv TypeSOA" ms] last_in_set [OF ne] by blast
    have soalen: "w_firstSOAAtLen st' = int (length (last ?vis))"
      using so Cons.prems(6) by simp
    have srt: "sorted_wrt (\<lambda>a b. length b < length a) ms" and lt: "\<forall>x\<in>set ms. length x < length m"
      using Cons.prems(5) by simp_all
    have visc: "upto_first (bears ?sv TypeSOA) (m # ms) = m # ?vis"
      using c(1) by simp
    have bl: "butlast (m # ?vis) = m # butlast ?vis"
      using ne by simp
    show ?thesis
    proof (cases "bears ?sv TypeNS m")
      case True
      then have f1: "w_firstNSAtLen st1 = int (length m)"
        using c(4) Cons.prems(4) by simp
      then have "0 \<le> w_firstNSAtLen st1" by simp
      from walk_list_ns_sticky [OF r cl this] f1 have "w_firstNSAtLen st' = int (length m)"
        by simp
      moreover have "length (last ?vis) < length m" using lt lastin by blast
      ultimately have "\<not> w_firstNSAtLen st' \<le> w_firstSOAAtLen st'"
        using soalen by simp
      with True show ?thesis
        unfolding visc bl by simp
    next
      case False
      then have f1: "w_firstNSAtLen st1 < 0"
        using c(4) Cons.prems(4) by simp
      from Cons.IH [OF r cl f1 srt Cons.prems(6)] False show ?thesis
        unfolding visc bl sv1 by simp
    qed
  qed
qed

lemma walk_list_origq_frame:
  "walk_list d norig ms st = Inr st' \<Longrightarrow> w_soa st = None \<Longrightarrow> w_firstSOAAtLen st < 0 \<Longrightarrow>
   \<forall>m\<in>set ms. length m \<noteq> length norig \<Longrightarrow>
   w_origq st' = w_origq st \<and> w_origerr st' = w_origerr st"
proof (induction ms arbitrary: st)
  case Nil
  then show ?case by simp
next
  case (Cons m ms)
  from Cons.prems(1) obtain fl where s: "walk_step d norig m st = Inr fl"
    by (auto split: sum.splits)
  show ?case
  proof (cases fl)
    case (Break st1)
    with s Cons.prems have "st' = st1" by simp
    with walk_step_Break(8) [OF s [unfolded Break] Cons.prems(2,3)] Cons.prems(4) show ?thesis
      by simp
  next
    case (Continue st1)
    note c = walk_step_Continue [OF s [unfolded Continue]]
    from s Continue Cons.prems(1) have r: "walk_list d norig ms st1 = Inr st'" by simp
    have cl: "w_soa st1 = None" "w_firstSOAAtLen st1 < 0"
      using c Cons.prems by simp_all
    from Cons.IH [OF r cl] c(7) Cons.prems(4) show ?thesis by simp
  qed
qed

lemma walk_list_origq:
  assumes "walk_list d norig (m # ms) st = Inr st'" and "w_soa st = None"
    and "w_firstSOAAtLen st < 0" and "length m = length norig"
    and "\<forall>x\<in>set ms. length x \<noteq> length norig"
  shows "(w_origq st', w_origerr st') = fst (blookup (w_tx st) m)"
proof -
  from assms(1) obtain fl where s: "walk_step d norig m st = Inr fl"
    by (auto split: sum.splits)
  show ?thesis
  proof (cases fl)
    case (Break st1)
    with s assms have "st' = st1" by simp
    with walk_step_Break(8) [OF s [unfolded Break] assms(2,3)] assms(4) show ?thesis
      by simp
  next
    case (Continue st1)
    note c = walk_step_Continue [OF s [unfolded Continue]]
    from s Continue assms(1) have r: "walk_list d norig ms st1 = Inr st'" by simp
    have cl: "w_soa st1 = None" "w_firstSOAAtLen st1 < 0"
      using c assms by simp_all
    from walk_list_origq_frame [OF r cl assms(5)] c(7) assms(4) show ?thesis by simp
  qed
qed

lemma names_shorter:
  "\<forall>m\<in>set (names n). length m \<le> length n"
proof (induction n rule: names.induct)
  case (1 n)
  show ?case
  proof (cases "length n > 0")
    case False
    then show ?thesis by (subst names.simps) simp
  next
    case True
    show ?thesis
    proof (cases "Index_dot n")
      case None
      with True show ?thesis by (subst names.simps) simp
    next
      case (Some nidx)
      from "1.IH" [OF True Some] True Some show ?thesis
        by (subst names.simps) auto
    qed
  qed
qed

lemma names_sorted: "sorted_wrt (\<lambda>a b. length b < length a) (names n)"
proof (induction n rule: names.induct)
  case (1 n)
  show ?case
  proof (cases "length n > 0")
    case False
    then show ?thesis by (subst names.simps) simp
  next
    case True
    show ?thesis
    proof (cases "Index_dot n")
      case None
      with True show ?thesis by (subst names.simps) simp
    next
      case (Some nidx)
      have "\<forall>m\<in>set (names (drop (nidx + 1) n)). length m < length n"
      proof
        fix m assume "m \<in> set (names (drop (nidx + 1) n))"
        with names_shorter [of "drop (nidx + 1) n"]
        have "length m \<le> length (drop (nidx + 1) n)" by blast
        moreover have "length (drop (nidx + 1) n) < length n" using True by simp
        ultimately show "length m < length n" by linarith
      qed
      with "1.IH" [OF True Some] True Some show ?thesis
        by (subst names.simps) simp
    qed
  qed
qed

lemma names_Cons: "n \<noteq> [] \<Longrightarrow> \<exists>ms. names n = n # ms \<and> (\<forall>m\<in>set ms. length m < length n)"
proof -
  assume ne: "n \<noteq> []"
  define ms where "ms = (case Index_dot n of None \<Rightarrow> [] | Some nidx \<Rightarrow> names (drop (nidx + 1) n))"
  have e: "names n = n # ms"
    unfolding ms_def using ne by (subst names.simps) simp
  have "sorted_wrt (\<lambda>a b. length b < length a) (n # ms)"
    using names_sorted [of n] unfolding e .
  then have "\<forall>m\<in>set ms. length m < length n" by simp
  with e show ?thesis by blast
qed

lemma names_Nil: "names [] = []"
  by (subst names.simps) simp

lemma upto_first_ex: "(\<exists>m\<in>set (upto_first P xs). P m) \<longleftrightarrow> (\<exists>m\<in>set xs. P m)"
  by (induction xs) auto

lemma upto_first_sorted:
  "sorted_wrt R xs \<Longrightarrow> sorted_wrt R (upto_first P xs)"
proof (induction xs)
  case Nil
  then show ?case by simp
next
  case (Cons x xs)
  have "\<forall>y\<in>set (upto_first P xs). R x y"
    using Cons.prems upto_first_subset [of P xs] by auto
  with Cons show ?case by simp
qed

lemma sorted_wrt_butlast_last:
  assumes "sorted_wrt R xs" and "xs \<noteq> []"
  shows "\<forall>x\<in>set (butlast xs). R x (last xs)"
proof -
  have "sorted_wrt R (butlast xs @ [last xs])"
    using assms by simp
  then show ?thesis
    unfolding sorted_wrt_append by simp
qed

lemma walk_init_clean:
  "w_soa (walk_init tx) = None" "w_firstSOAAtLen (walk_init tx) = - 1"
  "w_firstNSAtLen (walk_init tx) = - 1" "w_tx (walk_init tx) = tx"
  by (simp_all add: walk_init_def)

lemma blookup_fst_srv:
  "srv tx' = srv tx \<Longrightarrow> fst (blookup tx' n) = fst (blookup tx n)"
  by (simp add: blookup_def Let_def split: prod.splits)

text \<open>
  C1. Take a query for which the zone walk completes (no type assertion fails), ending in the
  state \<open>st\<close> of the local variables, and let \<open>vis\<close> be the names it looked up, in order. If no
  visited name bears SOA then \<open>soa\<close> is nil and the resolver returns \<^verbatim>\<open>ErrNotInZone\<close>; and only
  then. If no visited name bears NS, \<^verbatim>\<open>firstNSAtLen\<close> is still -1. Otherwise the walk started
  at the stripped qname and ended at the name bearing the SOA, which is the last and the
  shortest one visited and whose length is \<^verbatim>\<open>firstSOAAtLen\<close>; the resolver takes the
  authoritative branch, with the records and the error that \<^verbatim>\<open>blookup\<close> gave at the stripped
  qname, if \<^verbatim>\<open>firstSOAAtLen >= firstNSAtLen\<close>, and the delegation branch with \<open>nss\<close> if not; and
  the comparison holds exactly when no name visited before the SOA's, that is no strictly
  longer name, bears NS. So NS records at the owner name of the SOA leave the query with the
  authoritative branch, and NS records at a strictly longer name send it to the delegation
  branch.
\<close>

theorem addAnswersMain_classification:
  assumes W: "walk d (TrimRight_dot (qname tx)) (TrimRight_dot (qname tx)) (walk_init tx) = Inr st"
    and V: "lookups (w_tx st) = lookups tx @ vis"
  shows "(w_soa st = None \<longleftrightarrow> (\<forall>n\<in>set vis. \<not> bears (srv tx) TypeSOA n)) \<and>
    (w_soa st = None \<longrightarrow> addAnswersMain d tx = Inr (Some ErrNotInZone, w_tx st)) \<and>
    ((\<forall>n\<in>set vis. \<not> bears (srv tx) TypeNS n) \<longrightarrow> w_firstNSAtLen st = - 1) \<and>
    (w_soa st \<noteq> None \<longrightarrow>
       hd vis = TrimRight_dot (qname tx) \<and>
       bears (srv tx) TypeSOA (last vis) \<and>
       w_firstSOAAtLen st = int (length (last vis)) \<and>
       (\<forall>n\<in>set (butlast vis). length (last vis) < length n) \<and>
       (w_firstSOAAtLen st \<ge> w_firstNSAtLen st \<longleftrightarrow>
          (\<forall>n\<in>set (butlast vis). \<not> bears (srv tx) TypeNS n)) \<and>
       addAnswersMain d tx =
         (if w_firstSOAAtLen st \<ge> w_firstNSAtLen st
          then addAnswersAuthoritative
                 (fst (fst (blookup tx (TrimRight_dot (qname tx)))))
                 (snd (fst (blookup tx (TrimRight_dot (qname tx)))))
                 ((w_tx st)\<lparr>soa := w_soa st\<rparr>)
          else addAnswersDelegation (w_nss st) ((w_tx st)\<lparr>soa := w_soa st\<rparr>)))"
proof -
  let ?norig = "TrimRight_dot (qname tx)"
  let ?ms = "names ?norig"
  let ?P = "bears (srv tx) TypeSOA"
  from W have WL: "walk_list d ?norig ?ms (walk_init tx) = Inr st"
    by (simp only: walk_eq_walk_list)
  note cl = walk_init_clean(1) [of tx]
  have cl2: "w_firstSOAAtLen (walk_init tx) < 0" by (simp add: walk_init_def)
  have cl3: "w_firstNSAtLen (walk_init tx) < 0" by (simp add: walk_init_def)
  have tr: "lookups (w_tx st) = lookups tx @ upto_first ?P ?ms" and sv: "srv (w_tx st) = srv tx"
    using walk_list_trace [OF WL cl cl2] by (simp_all add: walk_init_def)
  from tr V have vis: "vis = upto_first ?P ?ms" by simp
  note so = walk_list_soa [OF WL cl cl2, unfolded walk_init_clean(4)]
  have c1: "w_soa st = None \<longleftrightarrow> (\<forall>n\<in>set vis. \<not> ?P n)"
    using so upto_first_ex [of ?P ?ms] unfolding vis by blast
  have c2: "w_soa st = None \<longrightarrow> addAnswersMain d tx = Inr (Some ErrNotInZone, w_tx st)"
    unfolding addAnswersMain_def Let_def W by simp
  have c3: "(\<forall>n\<in>set vis. \<not> bears (srv tx) TypeNS n) \<longrightarrow> w_firstNSAtLen st = - 1"
    using walk_list_ns_none [OF WL cl cl2] unfolding vis by (simp add: walk_init_def)
  have c4: "w_soa st \<noteq> None \<longrightarrow>
       hd vis = ?norig \<and> ?P (last vis) \<and> w_firstSOAAtLen st = int (length (last vis)) \<and>
       (\<forall>n\<in>set (butlast vis). length (last vis) < length n) \<and>
       (w_firstSOAAtLen st \<ge> w_firstNSAtLen st \<longleftrightarrow>
          (\<forall>n\<in>set (butlast vis). \<not> bears (srv tx) TypeNS n)) \<and>
       addAnswersMain d tx =
         (if w_firstSOAAtLen st \<ge> w_firstNSAtLen st
          then addAnswersAuthoritative (fst (fst (blookup tx ?norig))) (snd (fst (blookup tx ?norig)))
                 ((w_tx st)\<lparr>soa := w_soa st\<rparr>)
          else addAnswersDelegation (w_nss st) ((w_tx st)\<lparr>soa := w_soa st\<rparr>))"
  proof
    assume s: "w_soa st \<noteq> None"
    with so have ex: "\<exists>m\<in>set ?ms. ?P m" by simp
    then have ne: "?ms \<noteq> []" by auto
    then have nne: "?norig \<noteq> []" using names_Nil by auto
    from names_Cons [OF nne] obtain rest where
      ms: "?ms = ?norig # rest" and rest: "\<forall>m\<in>set rest. length m < length ?norig"
      by blast
    have visne: "vis \<noteq> []" using ne unfolding vis by simp
    have hdv: "hd vis = ?norig"
      unfolding vis ms by simp
    have srt: "sorted_wrt (\<lambda>a b. length b < length a) vis"
      unfolding vis by (rule upto_first_sorted [OF names_sorted])
    have len: "\<forall>n\<in>set (butlast vis). length (last vis) < length n"
      using sorted_wrt_butlast_last [OF srt visne] .
    have br: "w_firstNSAtLen st \<le> w_firstSOAAtLen st \<longleftrightarrow>
        (\<forall>n\<in>set (butlast vis). \<not> bears (srv tx) TypeNS n)"
      using walk_list_branch [OF WL cl cl2 cl3 names_sorted s] unfolding vis
      by (simp add: walk_init_def)
    have rest': "\<forall>x\<in>set rest. length x \<noteq> length ?norig" using rest by auto
    have oq: "(w_origq st, w_origerr st) = fst (blookup tx ?norig)"
      using walk_list_origq [OF WL [unfolded ms] cl cl2 refl rest'] by (simp add: walk_init_def)
    then have oq1: "w_origq st = fst (fst (blookup tx ?norig))"
      and oq2: "w_origerr st = snd (fst (blookup tx ?norig))"
      by (metis fst_conv, metis snd_conv)
    have main: "addAnswersMain d tx =
         (if w_firstSOAAtLen st \<ge> w_firstNSAtLen st
          then addAnswersAuthoritative (fst (fst (blookup tx ?norig))) (snd (fst (blookup tx ?norig)))
                 ((w_tx st)\<lparr>soa := w_soa st\<rparr>)
          else addAnswersDelegation (w_nss st) ((w_tx st)\<lparr>soa := w_soa st\<rparr>))"
      unfolding addAnswersMain_def Let_def W using s by (auto simp add: oq1 oq2)
    from hdv so s len br main show "hd vis = ?norig \<and> ?P (last vis) \<and>
       w_firstSOAAtLen st = int (length (last vis)) \<and>
       (\<forall>n\<in>set (butlast vis). length (last vis) < length n) \<and>
       (w_firstSOAAtLen st \<ge> w_firstNSAtLen st \<longleftrightarrow>
          (\<forall>n\<in>set (butlast vis). \<not> bears (srv tx) TypeNS n)) \<and>
       addAnswersMain d tx =
         (if w_firstSOAAtLen st \<ge> w_firstNSAtLen st
          then addAnswersAuthoritative (fst (fst (blookup tx ?norig))) (snd (fst (blookup tx ?norig)))
                 ((w_tx st)\<lparr>soa := w_soa st\<rparr>)
          else addAnswersDelegation (w_nss st) ((w_tx st)\<lparr>soa := w_soa st\<rparr>))"
      unfolding vis by simp
  qed
  from c1 c2 c3 c4 show ?thesis by blast
qed

theorem addAnswersMain_classification_witness:
  "w_soa ex_walk \<noteq> None \<and>
   lookups (w_tx ex_walk) = [''foo.sub.example'', ''sub.example'', ''example''] \<and>
   bears ex_server TypeNS ''sub.example'' \<and> bears ex_server TypeSOA ''example'' \<and>
   w_firstSOAAtLen ex_walk = 7 \<and> w_firstNSAtLen ex_walk = 11 \<and>
   addAnswersMain ex_deps (ex_tx ''foo.sub.example.'' TypeA) =
     addAnswersDelegation (w_nss ex_walk) ((w_tx ex_walk)\<lparr>soa := w_soa ex_walk\<rparr>)"
proof -
  let ?tx = "ex_tx ''foo.sub.example.'' TypeA"
  let ?n = "TrimRight_dot (qname ?tx)"
  have r: "\<not> isl (walk ex_deps ?n ?n (walk_init ?tx))"
    by code_simp
  have W: "walk ex_deps ?n ?n (walk_init ?tx) = Inr ex_walk"
    unfolding ex_walk_def using r by simp
  have V: "lookups (w_tx ex_walk) = lookups ?tx @ [''foo.sub.example'', ''sub.example'', ''example'']"
    unfolding ex_walk_def by code_simp
  have s: "w_soa ex_walk \<noteq> None"
    unfolding ex_walk_def by code_simp
  have sv: "srv ?tx = ex_server"
    by (simp add: ex_tx_def newTx_def)
  have b1: "bears ex_server TypeNS ''sub.example''"
    by code_simp
  have b2: "bears ex_server TypeSOA ''example''"
    by code_simp
  have l: "w_firstSOAAtLen ex_walk = 7" "w_firstNSAtLen ex_walk = 11"
    unfolding ex_walk_def by code_simp+
  have l0: "lookups ?tx = []"
    by (simp add: ex_tx_def newTx_def)
  note T = addAnswersMain_classification [OF W V, unfolded sv]
  from T s l have "addAnswersMain ex_deps ?tx =
      addAnswersDelegation (w_nss ex_walk) ((w_tx ex_walk)\<lparr>soa := w_soa ex_walk\<rparr>)"
    by simp
  with s V b1 b2 l l0 show ?thesis by simp
qed

end
